theory Spec2Isabelle
  imports Complex_Main
begin

section \<open>Swap-network Trotter ansatz for the Hubbard model\<close>

text \<open>
  A shallow embedding of
  \<^verbatim>\<open>openfermioncirq/variational/ansatzes/swap_network_trotter_hubbard.py\<close>.

  Conventions of the embedding:
  \<^item> Python's unbounded integers are \<^typ>\<open>int\<close>; \<open>%\<close> on integers is floor modulo,
    which is \<open>mod\<close> on \<^typ>\<open>int\<close> for a non-zero divisor; a zero divisor raises.
  \<^item> Python's \<open>float\<close> is idealised as \<^typ>\<open>real\<close> (exact arithmetic, no rounding,
    no infinities or NaN).
  \<^item> An exception is a value \<open>Inl e\<close> of a sum type; \<open>None\<close> is \<^term>\<open>None\<close>.
  \<^item> A leading underscore of a Python name is dropped.
\<close>

datatype error = ZeroDivisionError | ValueError

subsection \<open>Lattice geometry\<close>

text \<open>
  \<^verbatim>\<open>
  def _right_neighbor(site, x_dimension, y_dimension, periodic):
      if x_dimension == 1:
          return None
      if (site + 1) % x_dimension == 0:
          if periodic:
              return site + 1 - x_dimension
          else:
              return None
      return site + 1
  \<close>
  The modulo raises \<open>ZeroDivisionError\<close> when \<open>x_dimension\<close> is zero.
\<close>

definition right_neighbor :: "int \<Rightarrow> int \<Rightarrow> int \<Rightarrow> bool \<Rightarrow> error + int option" where
  "right_neighbor site x_dimension y_dimension periodic =
     (if x_dimension = 1 then Inr None
      else if x_dimension = 0 then Inl ZeroDivisionError
      else if (site + 1) mod x_dimension = 0 then
        (if periodic then Inr (Some (site + 1 - x_dimension)) else Inr None)
      else Inr (Some (site + 1)))"

text \<open>
  \<^verbatim>\<open>
  def _bottom_neighbor(site, x_dimension, y_dimension, periodic):
      if y_dimension == 1:
          return None
      if site + x_dimension + 1 > x_dimension*y_dimension:
          if periodic:
              return site + x_dimension - x_dimension*y_dimension
          else:
              return None
      return site + x_dimension
  \<close>
\<close>

definition bottom_neighbor :: "int \<Rightarrow> int \<Rightarrow> int \<Rightarrow> bool \<Rightarrow> int option" where
  "bottom_neighbor site x_dimension y_dimension periodic =
     (if y_dimension = 1 then None
      else if site + x_dimension + 1 > x_dimension * y_dimension then
        (if periodic then Some (site + x_dimension - x_dimension * y_dimension) else None)
      else Some (site + x_dimension))"

text \<open>
  The first two statements of both edge predicates: a pair in different spin sectors is
  rejected, a pair in the upper sector is folded down by \<open>n_sites\<close>.
\<close>

definition different_sector :: "int \<Rightarrow> int \<Rightarrow> int \<Rightarrow> bool" where
  "different_sector p q n_sites \<longleftrightarrow> (p < n_sites \<and> q \<ge> n_sites) \<or> (q < n_sites \<and> p \<ge> n_sites)"

definition fold_sector :: "int \<Rightarrow> int \<Rightarrow> int \<Rightarrow> int \<times> int" where
  "fold_sector p q n_sites =
     (if p \<ge> n_sites \<and> q \<ge> n_sites then (p - n_sites, q - n_sites) else (p, q))"

text \<open>
  \<^verbatim>\<open>
  def _is_horizontal_edge(p, q, x_dim, y_dim, periodic):
      n_sites = x_dim*y_dim
      if p < n_sites and q >= n_sites or q < n_sites and p >= n_sites:
          return False
      if p >= n_sites and q >= n_sites:
          p -= n_sites
          q -= n_sites
      return (q == _right_neighbor(p, x_dim, y_dim, periodic)
              or p == _right_neighbor(q, x_dim, y_dim, periodic))
  \<close>
  The \<open>or\<close> evaluates its right operand only when the left one is false. An integer
  never equals \<open>None\<close>.
\<close>

definition is_horizontal_edge :: "int \<Rightarrow> int \<Rightarrow> int \<Rightarrow> int \<Rightarrow> bool \<Rightarrow> error + bool" where
  "is_horizontal_edge p q x_dim y_dim periodic =
     (let n_sites = x_dim * y_dim in
      if different_sector p q n_sites then Inr False
      else
        (case fold_sector p q n_sites of (p', q') \<Rightarrow>
           (case right_neighbor p' x_dim y_dim periodic of
              Inl e \<Rightarrow> Inl e
            | Inr r \<Rightarrow>
                if Some q' = r then Inr True
                else
                  (case right_neighbor q' x_dim y_dim periodic of
                     Inl e \<Rightarrow> Inl e
                   | Inr r' \<Rightarrow> Inr (Some p' = r')))))"

text \<open>
  \<^verbatim>\<open>
  def _is_vertical_edge(p, q, x_dim, y_dim, periodic):
      n_sites = x_dim*y_dim
      if p < n_sites and q >= n_sites or q < n_sites and p >= n_sites:
          return False
      if p >= n_sites and q >= n_sites:
          p -= n_sites
          q -= n_sites
      return (q == _bottom_neighbor(p, x_dim, y_dim, periodic)
              or p == _bottom_neighbor(q, x_dim, y_dim, periodic))
  \<close>
\<close>

definition is_vertical_edge :: "int \<Rightarrow> int \<Rightarrow> int \<Rightarrow> int \<Rightarrow> bool \<Rightarrow> bool" where
  "is_vertical_edge p q x_dim y_dim periodic =
     (let n_sites = x_dim * y_dim in
      if different_sector p q n_sites then False
      else
        (case fold_sector p q n_sites of (p', q') \<Rightarrow>
           Some q' = bottom_neighbor p' x_dim y_dim periodic
           \<or> Some p' = bottom_neighbor q' x_dim y_dim periodic))"

text \<open>
  \<^verbatim>\<open>
  def _are_same_site_opposite_spin(p, q, n_sites):
      return abs(p-q) == n_sites
  \<close>
\<close>

definition are_same_site_opposite_spin :: "int \<Rightarrow> int \<Rightarrow> int \<Rightarrow> bool" where
  "are_same_site_opposite_spin p q n_sites \<longleftrightarrow> \<bar>p - q\<bar> = n_sites"

subsection \<open>Exponent canonicalisation\<close>

text \<open>
  Python's \<open>x % m\<close> on floats: the result has the sign of the divisor, that is
  \<open>x - m * floor (x / m)\<close>; a zero divisor raises \<open>ZeroDivisionError\<close>.
\<close>

definition float_mod :: "real \<Rightarrow> real \<Rightarrow> error + real" where
  "float_mod x m = (if m = 0 then Inl ZeroDivisionError else Inr (x - m * of_int \<lfloor>x / m\<rfloor>))"

text \<open>
  \<^verbatim>\<open>
  def _canonicalize_exponent(exponent: float, period: int) -> float:
      # Shift into [-p/2, +p/2).
      exponent += period / 2
      exponent %= period
      exponent -= period / 2
      # Prefer (-p/2, +p/2] over [-p/2, +p/2).
      if exponent <= -period / 2:
          exponent += period  # coverage: ignore
      return exponent
  \<close>
\<close>

definition canonicalize_exponent :: "real \<Rightarrow> int \<Rightarrow> error + real" where
  "canonicalize_exponent exponent period =
     (let e1 = exponent + of_int period / 2 in
      case float_mod e1 (of_int period) of
        Inl err \<Rightarrow> Inl err
      | Inr e2 \<Rightarrow>
          (let e3 = e2 - of_int period / 2 in
           if e3 \<le> of_int (- period) / 2 then Inr (e3 + of_int period) else Inr e3))"

subsection \<open>The ansatz object\<close>

text \<open>
  Modelled from the spec: the class \<open>LetterWithSubscripts\<close>, declared in another module
  of the repository. The spec gives a symbolic parameter as "a letter tag" from \<open>Th\<close>,
  \<open>Tv\<close>, \<open>V\<close> "plus an integer subscript", with identity by letter and subscript
  tuple; the module reads its attributes \<open>letter\<close> and \<open>subscripts\<close>.
\<close>

datatype LetterWithSubscripts = LetterWithSubscripts (letter: string) (subscripts: "int list")

text \<open>\<open>cirq.LineQubit\<close>, the qubit type of the default register.\<close>

datatype Qid = LineQubit int

record SwapNetworkTrotterHubbardAnsatz =
  x_dim :: int
  y_dim :: int
  tunneling :: real
  coulomb :: real
  periodic :: bool
  iterations :: int
  adiabatic_evolution_time :: real
  qubits :: "Qid list option"

text \<open>
  \<^verbatim>\<open>
  def _generate_qubits(self) -> Sequence[cirq.Qid]:
      n_qubits = 2*self.x_dim*self.y_dim
      return cirq.LineQubit.range(n_qubits)
  \<close>
\<close>

definition generate_qubits :: "SwapNetworkTrotterHubbardAnsatz \<Rightarrow> Qid list" where
  "generate_qubits self =
     (let n_qubits = 2 * x_dim self * y_dim self in map LineQubit [0..n_qubits - 1])"

text \<open>
  Modelled from the spec: the constructor of the base class \<open>VariationalAnsatz\<close>, which
  is not part of the module. The spec gives it as "qubit-sequence injection or
  default-generation hook": the register is the one supplied by the caller, and the one
  of \<open>_generate_qubits\<close> "when no explicit qubit set is supplied". The spec defines no
  error path for it.
\<close>

definition VariationalAnsatz_init ::
  "SwapNetworkTrotterHubbardAnsatz \<Rightarrow> Qid list option
     \<Rightarrow> error + SwapNetworkTrotterHubbardAnsatz" where
  "VariationalAnsatz_init self qs =
     Inr (self\<lparr>qubits := Some (case qs of None \<Rightarrow> generate_qubits self | Some given \<Rightarrow> given)\<rparr>)"

text \<open>
  \<^verbatim>\<open>
  def __init__(self, x_dim, y_dim, tunneling, coulomb, periodic=True, iterations=1,
               adiabatic_evolution_time=None, qubits=None) -> None:
      self.x_dim = x_dim
      self.y_dim = y_dim
      self.tunneling = tunneling
      self.coulomb = coulomb
      self.periodic = periodic
      self.iterations = iterations

      if adiabatic_evolution_time is None:
          adiabatic_evolution_time = 0.1*abs(coulomb)*iterations
      self.adiabatic_evolution_time = cast(float, adiabatic_evolution_time)

      super().__init__(qubits)
  \<close>
\<close>

definition init ::
  "int \<Rightarrow> int \<Rightarrow> real \<Rightarrow> real \<Rightarrow> bool \<Rightarrow> int \<Rightarrow> real option \<Rightarrow> Qid list option
     \<Rightarrow> error + SwapNetworkTrotterHubbardAnsatz" where
  "init xd yd t c per its aet qs =
     (let aet' = (case aet of None \<Rightarrow> 0.1 * \<bar>c\<bar> * of_int its | Some v \<Rightarrow> v) in
      VariationalAnsatz_init
        \<lparr>x_dim = xd, y_dim = yd, tunneling = t, coulomb = c, periodic = per,
         iterations = its, adiabatic_evolution_time = aet', qubits = None\<rparr> qs)"

subsection \<open>Parameters and their bounds\<close>

text \<open>
  \<^verbatim>\<open>
  def params(self) -> Iterable[sympy.Symbol]:
      for i in range(self.iterations):
          if self.x_dim > 1:
              yield LetterWithSubscripts('Th', i)
          if self.y_dim > 1:
              yield LetterWithSubscripts('Tv', i)
          yield LetterWithSubscripts('V', i)
  \<close>
  The generator is modelled by the list of the values it yields; \<open>params_loop self i\<close>
  is what the loop yields from counter \<open>i\<close> on.
\<close>

function params_loop :: "SwapNetworkTrotterHubbardAnsatz \<Rightarrow> int \<Rightarrow> LetterWithSubscripts list" where
  "params_loop self i =
     (if i < iterations self then
        (if x_dim self > 1 then [LetterWithSubscripts ''Th'' [i]] else [])
        @ (if y_dim self > 1 then [LetterWithSubscripts ''Tv'' [i]] else [])
        @ [LetterWithSubscripts ''V'' [i]]
        @ params_loop self (i + 1)
      else [])"
  by pat_completeness auto
termination
  by (relation "measure (\<lambda>(self, i). nat (iterations self - i))") auto

declare params_loop.simps [simp del]

definition params :: "SwapNetworkTrotterHubbardAnsatz \<Rightarrow> LetterWithSubscripts list" where
  "params self = params_loop self 0"

text \<open>
  \<^verbatim>\<open>
  def param_bounds(self) -> Optional[Sequence[Tuple[float, float]]]:
      bounds = []
      for param in self.params():
          s = 1.0 if param.letter == 'V' else 2.0
          bounds.append((-s, s))
      return bounds
  \<close>
\<close>

fun param_bounds_loop :: "LetterWithSubscripts list \<Rightarrow> (real \<times> real) list \<Rightarrow> (real \<times> real) list" where
  "param_bounds_loop [] bounds = bounds"
| "param_bounds_loop (param # rest) bounds =
     (let s = (if letter param = ''V'' then 1 else 2) in
      param_bounds_loop rest (bounds @ [(- s, s)]))"

definition param_bounds :: "SwapNetworkTrotterHubbardAnsatz \<Rightarrow> (real \<times> real) list" where
  "param_bounds self = param_bounds_loop (params self) []"

subsection \<open>Operations of the circuit\<close>

text \<open>
  Gate exponents are symbolic: a parameter or its negation. The two gate kinds are
  \<open>cirq.ISwapPowGate(exponent=...).on(a, b)\<close> and \<open>cirq.CZPowGate(exponent=...).on(a, b)\<close>.
\<close>

datatype exponent_expr = Symbol LetterWithSubscripts | Neg exponent_expr

datatype gate_operation =
    ISwapPowGate exponent_expr Qid Qid
  | CZPowGate exponent_expr Qid Qid

text \<open>
  The two callbacks handed to the swap network are generators: the gates yielded before
  an exception are kept, so a callback returns the yielded gates and the exception, if
  any.
  \<^verbatim>\<open>
  def one_and_two_body_interaction(p, q, a, b) -> cirq.OP_TREE:
      th_symbol = LetterWithSubscripts('Th', i)
      tv_symbol = LetterWithSubscripts('Tv', i)
      v_symbol = LetterWithSubscripts('V', i)
      if _is_horizontal_edge(p, q, self.x_dim, self.y_dim, self.periodic):
          yield cirq.ISwapPowGate(exponent=-th_symbol).on(a, b)
      if _is_vertical_edge(p, q, self.x_dim, self.y_dim, self.periodic):
          yield cirq.ISwapPowGate(exponent=-tv_symbol).on(a, b)
      if _are_same_site_opposite_spin(p, q, self.x_dim*self.y_dim):
          yield cirq.CZPowGate(exponent=v_symbol).on(a, b)
  \<close>
\<close>

definition one_and_two_body_interaction ::
  "SwapNetworkTrotterHubbardAnsatz \<Rightarrow> int \<Rightarrow> int \<Rightarrow> int \<Rightarrow> Qid \<Rightarrow> Qid
     \<Rightarrow> gate_operation list \<times> error option" where
  "one_and_two_body_interaction self i p q a b =
     (let th_symbol = LetterWithSubscripts ''Th'' [i];
          tv_symbol = LetterWithSubscripts ''Tv'' [i];
          v_symbol = LetterWithSubscripts ''V'' [i]
      in case is_horizontal_edge p q (x_dim self) (y_dim self) (periodic self) of
           Inl e \<Rightarrow> ([], Some e)
         | Inr h \<Rightarrow>
             ((if h then [ISwapPowGate (Neg (Symbol th_symbol)) a b] else [])
              @ (if is_vertical_edge p q (x_dim self) (y_dim self) (periodic self)
                 then [ISwapPowGate (Neg (Symbol tv_symbol)) a b] else [])
              @ (if are_same_site_opposite_spin p q (x_dim self * y_dim self)
                 then [CZPowGate (Symbol v_symbol) a b] else []),
              None))"

text \<open>
  \<^verbatim>\<open>
  def one_and_two_body_interaction_reversed_order(p, q, a, b) -> cirq.OP_TREE:
      th_symbol = LetterWithSubscripts('Th', i)
      tv_symbol = LetterWithSubscripts('Tv', i)
      v_symbol = LetterWithSubscripts('V', i)
      if _are_same_site_opposite_spin(p, q, self.x_dim*self.y_dim):
          yield cirq.CZPowGate(exponent=v_symbol).on(a, b)
      if _is_vertical_edge(p, q, self.x_dim, self.y_dim, self.periodic):
          yield cirq.ISwapPowGate(exponent=-tv_symbol).on(a, b)
      if _is_horizontal_edge(p, q, self.x_dim, self.y_dim, self.periodic):
          yield cirq.ISwapPowGate(exponent=-th_symbol).on(a, b)
  \<close>
\<close>

definition one_and_two_body_interaction_reversed_order ::
  "SwapNetworkTrotterHubbardAnsatz \<Rightarrow> int \<Rightarrow> int \<Rightarrow> int \<Rightarrow> Qid \<Rightarrow> Qid
     \<Rightarrow> gate_operation list \<times> error option" where
  "one_and_two_body_interaction_reversed_order self i p q a b =
     (let th_symbol = LetterWithSubscripts ''Th'' [i];
          tv_symbol = LetterWithSubscripts ''Tv'' [i];
          v_symbol = LetterWithSubscripts ''V'' [i];
          yielded =
            (if are_same_site_opposite_spin p q (x_dim self * y_dim self)
             then [CZPowGate (Symbol v_symbol) a b] else [])
            @ (if is_vertical_edge p q (x_dim self) (y_dim self) (periodic self)
               then [ISwapPowGate (Neg (Symbol tv_symbol)) a b] else [])
      in case is_horizontal_edge p q (x_dim self) (y_dim self) (periodic self) of
           Inl e \<Rightarrow> (yielded, Some e)
         | Inr h \<Rightarrow>
             (yielded @ (if h then [ISwapPowGate (Neg (Symbol th_symbol)) a b] else []), None))"

text \<open>
  The qubit sequences live in a store of list objects: \<open>cells\<close> gives the content of
  each reference and \<open>next_free\<close> is the first unused reference. A variable holding a
  sequence holds a reference. \<open>qubits[::-1]\<close> allocates a new list, the reverse of the
  one referred to, and leaves every existing object as it is.
\<close>

record store =
  cells :: "nat \<Rightarrow> Qid list"
  next_free :: nat

definition reversed_copy :: "store \<Rightarrow> nat \<Rightarrow> nat \<times> store" where
  "reversed_copy s r =
     (next_free s,
      s\<lparr>cells := (cells s)(next_free s := rev (cells s r)), next_free := Suc (next_free s)\<rparr>)"

text \<open>
  \<open>swap_network\<close> is a function of another module of the repository; here it is a
  parameter \<open>sn\<close> taking the content of the qubit sequence, the callback and the flags
  \<open>fermionic\<close> and \<open>offset\<close>, and returning an operation tree or the exception raised
  while building it. It reads the sequence and does not write it.
\<close>

type_synonym interaction_callback =
  "int \<Rightarrow> int \<Rightarrow> Qid \<Rightarrow> Qid \<Rightarrow> gate_operation list \<times> error option"

type_synonym 't swap_network =
  "Qid list \<Rightarrow> interaction_callback \<Rightarrow> bool \<Rightarrow> bool \<Rightarrow> error + 't"

text \<open>
  One pass of the body of the loop of \<open>operations\<close>, for the iteration \<open>i\<close>, from the
  local variable \<open>qubits\<close> (a reference) and the store. It returns the store, the local
  variable, the trees yielded and the exception, if any.
  \<^verbatim>\<open>
      yield swap_network(qubits, one_and_two_body_interaction, fermionic=True)
      qubits = qubits[::-1]
      yield swap_network(qubits, one_and_two_body_interaction_reversed_order,
                         fermionic=True, offset=True)
      qubits = qubits[::-1]
  \<close>
\<close>

definition operations_iteration ::
  "'t swap_network \<Rightarrow> SwapNetworkTrotterHubbardAnsatz \<Rightarrow> int \<Rightarrow> nat \<Rightarrow> store
     \<Rightarrow> store \<times> nat \<times> 't list \<times> error option" where
  "operations_iteration sn self i qubits_ref s =
     (case sn (cells s qubits_ref) (one_and_two_body_interaction self i) True False of
        Inl e \<Rightarrow> (s, qubits_ref, [], Some e)
      | Inr t1 \<Rightarrow>
          (case reversed_copy s qubits_ref of (qubits_ref1, s1) \<Rightarrow>
             (case sn (cells s1 qubits_ref1)
                     (one_and_two_body_interaction_reversed_order self i) True True of
                Inl e \<Rightarrow> (s1, qubits_ref1, [t1], Some e)
              | Inr t2 \<Rightarrow>
                  (case reversed_copy s1 qubits_ref1 of (qubits_ref2, s2) \<Rightarrow>
                     (s2, qubits_ref2, [t1, t2], None)))))"

text \<open>
  \<^verbatim>\<open>
  def operations(self, qubits: Sequence[cirq.Qid]) -> cirq.OP_TREE:
      for i in range(self.iterations):
          ...
  \<close>
\<close>

function operations_loop ::
  "'t swap_network \<Rightarrow> SwapNetworkTrotterHubbardAnsatz \<Rightarrow> int \<Rightarrow> nat \<Rightarrow> store \<Rightarrow> 't list
     \<Rightarrow> store \<times> nat \<times> 't list \<times> error option" where
  "operations_loop sn self i qubits_ref s out =
     (if i < iterations self then
        (case operations_iteration sn self i qubits_ref s of
           (s', qubits_ref', ys, Some e) \<Rightarrow> (s', qubits_ref', out @ ys, Some e)
         | (s', qubits_ref', ys, None) \<Rightarrow>
             operations_loop sn self (i + 1) qubits_ref' s' (out @ ys))
      else (s, qubits_ref, out, None))"
  by pat_completeness auto
termination
  by (relation "measure (\<lambda>(sn, self, i, r, s, out). nat (iterations self - i))") auto

declare operations_loop.simps [simp del]

definition operations ::
  "'t swap_network \<Rightarrow> SwapNetworkTrotterHubbardAnsatz \<Rightarrow> nat \<Rightarrow> store
     \<Rightarrow> store \<times> nat \<times> 't list \<times> error option" where
  "operations sn self qubits_ref s = operations_loop sn self 0 qubits_ref s []"

subsection \<open>Default initial parameters\<close>

text \<open>
  \<open>param_scale_factors\<close> is a method of the base class; its result is the parameter
  \<open>scale_factors\<close>. \<open>zip\<close> stops at the shorter of its arguments. Dividing by a zero
  scale factor raises \<open>ZeroDivisionError\<close>, and so does unpacking a subscript tuple that
  does not have exactly one entry (\<open>ValueError\<close>).
  \<^verbatim>\<open>
      params = []
      for param, scale_factor in zip(self.params(), self.param_scale_factors()):
          if param.letter == 'Th' or param.letter == 'Tv':
              params.append(_canonicalize_exponent(
                  -self.tunneling * step_time / numpy.pi, 4) / scale_factor)
          elif param.letter == 'V':
              i, = param.subscripts
              # Use the midpoint of the time segment
              interpolation_progress = 0.5 * (2 * i + 1) / self.iterations
              params.append(_canonicalize_exponent(
                  -0.5 * self.coulomb * interpolation_progress *
                  step_time / numpy.pi, 2) / scale_factor)
  \<close>
\<close>

definition divide_by :: "error + real \<Rightarrow> real \<Rightarrow> error + real" where
  "divide_by v scale_factor =
     (case v of
        Inl e \<Rightarrow> Inl e
      | Inr c \<Rightarrow> if scale_factor = 0 then Inl ZeroDivisionError else Inr (c / scale_factor))"

fun default_initial_params_loop ::
  "SwapNetworkTrotterHubbardAnsatz \<Rightarrow> real \<Rightarrow> (LetterWithSubscripts \<times> real) list \<Rightarrow> real list
     \<Rightarrow> error + real list" where
  "default_initial_params_loop self step_time [] params_acc = Inr params_acc"
| "default_initial_params_loop self step_time ((param, scale_factor) # rest) params_acc =
     (if letter param = ''Th'' \<or> letter param = ''Tv'' then
        (case divide_by (canonicalize_exponent (- tunneling self * step_time / pi) 4)
                scale_factor of
           Inl e \<Rightarrow> Inl e
         | Inr v \<Rightarrow> default_initial_params_loop self step_time rest (params_acc @ [v]))
      else if letter param = ''V'' then
        (case subscripts param of
           [i] \<Rightarrow>
             (let interpolation_progress = 0.5 * (2 * of_int i + 1) / of_int (iterations self)
              in case divide_by
                        (canonicalize_exponent
                           (- 0.5 * coulomb self * interpolation_progress * step_time / pi) 2)
                        scale_factor of
                   Inl e \<Rightarrow> Inl e
                 | Inr v \<Rightarrow> default_initial_params_loop self step_time rest (params_acc @ [v]))
         | _ \<Rightarrow> Inl ValueError)
      else default_initial_params_loop self step_time rest params_acc)"

text \<open>
  \<^verbatim>\<open>
  def default_initial_params(self) -> numpy.ndarray:
      total_time = self.adiabatic_evolution_time
      step_time = total_time / self.iterations
      params = []
      for ...
      return numpy.array(params)
  \<close>
\<close>

definition default_initial_params ::
  "SwapNetworkTrotterHubbardAnsatz \<Rightarrow> real list \<Rightarrow> error + real list" where
  "default_initial_params self scale_factors =
     (let total_time = adiabatic_evolution_time self in
      if iterations self = 0 then Inl ZeroDivisionError
      else
        (let step_time = total_time / of_int (iterations self) in
         default_initial_params_loop self step_time (zip (params self) scale_factors) []))"

subsection \<open>Auxiliary definitions for the statements\<close>

text \<open>
  The scenario of the spec: a periodic 2 x 2 lattice with tunneling 1, Coulomb repulsion 2
  and two iterations, as the constructor builds it (evolution time \<open>0.1 * 2 * 2\<close>, default
  register of eight line qubits).
\<close>

definition example_ansatz :: SwapNetworkTrotterHubbardAnsatz where
  "example_ansatz =
     \<lparr>x_dim = 2, y_dim = 2, tunneling = 1, coulomb = 2, periodic = True, iterations = 2,
      adiabatic_evolution_time = 0.4, qubits = Some (map LineQubit [0, 1, 2, 3, 4, 5, 6, 7])\<rparr>"

text \<open>What one iteration of the loop of \<open>params\<close> yields, for the counter \<open>i\<close>.\<close>

definition params_block :: "SwapNetworkTrotterHubbardAnsatz \<Rightarrow> int \<Rightarrow> LetterWithSubscripts list" where
  "params_block self i =
     (if x_dim self > 1 then [LetterWithSubscripts ''Th'' [i]] else [])
     @ (if y_dim self > 1 then [LetterWithSubscripts ''Tv'' [i]] else [])
     @ [LetterWithSubscripts ''V'' [i]]"


text \<open>
  The value that the claim on \<open>default_initial_params\<close> gives for the parameter \<open>param\<close>
  with the scale factor \<open>scale_factor\<close>, for a step time \<open>step_time\<close>.
\<close>

definition initial_value_ok ::
  "SwapNetworkTrotterHubbardAnsatz \<Rightarrow> real \<Rightarrow> LetterWithSubscripts \<Rightarrow> real \<Rightarrow> real \<Rightarrow> bool" where
  "initial_value_ok self step_time param scale_factor v \<longleftrightarrow>
     ((letter param = ''Th'' \<or> letter param = ''Tv'')
      \<and> (\<exists>c. canonicalize_exponent (- tunneling self * step_time / pi) 4 = Inr c
              \<and> v = c / scale_factor))
     \<or> (\<exists>i. param = LetterWithSubscripts ''V'' [i]
            \<and> (\<exists>c. canonicalize_exponent
                       (- 0.5 * coulomb self
                          * (0.5 * (2 * of_int i + 1) / of_int (iterations self))
                          * step_time / pi) 2 = Inr c
                    \<and> v = c / scale_factor))"


text \<open>
  A small swap network for concrete runs: it hands the first two qubits of the sequence
  to the callback once, as the pair of the indices 0 and 1.
\<close>

definition example_swap_network :: "gate_operation list swap_network" where
  "example_swap_network qs callback fermionic offset =
     (case qs of
        a # b # rest \<Rightarrow>
          (case callback 0 1 a b of
             (gates, None) \<Rightarrow> Inr gates
           | (gates, Some e) \<Rightarrow> Inl e)
      | _ \<Rightarrow> Inr [])"

text \<open>A store holding one list object, the register of eight line qubits.\<close>

definition example_store :: store where
  "example_store = \<lparr>cells = (\<lambda>r. [])(0 := map LineQubit [0, 1, 2, 3, 4, 5, 6, 7]), next_free = 1\<rparr>"


section \<open>Properties of the lattice geometry\<close>

lemma different_sector_sym: "different_sector p q n = different_sector q p n"
  by (auto simp: different_sector_def)

lemma fold_sector_sym: "fold_sector q p n = (case fold_sector p q n of (a, b) \<Rightarrow> (b, a))"
  by (simp add: fold_sector_def)

lemma horizontal_core:
  "(case right_neighbor a xd yd per of
      Inl e \<Rightarrow> Inl e
    | Inr r \<Rightarrow>
        if Some b = r then Inr True
        else (case right_neighbor b xd yd per of Inl e \<Rightarrow> Inl e | Inr r' \<Rightarrow> Inr (Some a = r'))) =
   (if xd = 0 then Inl ZeroDivisionError
    else Inr (Inr (Some b) = right_neighbor a xd yd per \<or> Inr (Some a) = right_neighbor b xd yd per))"
  by (cases "xd = 0") (auto simp: right_neighbor_def)

lemma is_horizontal_edge_char:
  "is_horizontal_edge p q xd yd per =
     (if different_sector p q (xd * yd) then Inr False
      else if xd = 0 then Inl ZeroDivisionError
      else Inr (Inr (Some (snd (fold_sector p q (xd * yd))))
                  = right_neighbor (fst (fold_sector p q (xd * yd))) xd yd per
              \<or> Inr (Some (fst (fold_sector p q (xd * yd))))
                  = right_neighbor (snd (fold_sector p q (xd * yd))) xd yd per))"
  unfolding is_horizontal_edge_def Let_def
  by (cases "fold_sector p q (xd * yd)") (simp add: horizontal_core)

lemma is_vertical_edge_char:
  "is_vertical_edge p q xd yd per \<longleftrightarrow>
     \<not> different_sector p q (xd * yd) \<and>
     (Some (snd (fold_sector p q (xd * yd)))
        = bottom_neighbor (fst (fold_sector p q (xd * yd))) xd yd per
      \<or> Some (fst (fold_sector p q (xd * yd)))
        = bottom_neighbor (snd (fold_sector p q (xd * yd))) xd yd per)"
  unfolding is_vertical_edge_def Let_def
  by (cases "fold_sector p q (xd * yd)") simp

lemma right_bottom_disjoint:
  assumes x: "2 \<le> xd" and n: "2 * xd \<le> xd * yd"
    and h: "Inr (Some b) = right_neighbor a xd yd per \<or> Inr (Some a) = right_neighbor b xd yd per"
    and v: "Some b = bottom_neighbor a xd yd per \<or> Some a = bottom_neighbor b xd yd per"
  shows False
proof -
  have h': "b = a + 1 \<or> b = a + 1 - xd \<or> a = b + 1 \<or> a = b + 1 - xd"
    using h x by (auto simp: right_neighbor_def split: if_splits)
  have v': "b = a + xd \<or> b = a + xd - xd * yd \<or> a = b + xd \<or> a = b + xd - xd * yd"
    using v by (auto simp: bottom_neighbor_def split: if_splits)
  from h' v' x n show False by linarith
qed

lemma same_site_different_sector:
  assumes "0 \<le> p" "p < 2 * n" "0 \<le> q" "q < 2 * n" "are_same_site_opposite_spin p q n"
  shows "different_sector p q n"
  using assms unfolding are_same_site_opposite_spin_def different_sector_def by linarith

text \<open>
  Claim C1. On a lattice with \<open>x_dim \<ge> 1\<close> and \<open>y_dim \<ge> 1\<close>, for either boundary
  condition and two distinct qubit indices \<open>p\<close>, \<open>q\<close> in \<open>[0, 2 * x_dim * y_dim)\<close>, the
  horizontal-edge predicate returns a truth value (it does not raise) and at most one of
  the three predicates (horizontal edge, vertical edge, same site with opposite spin) is
  true: no two of them hold together. In particular a same-site pair is neither a
  horizontal nor a vertical edge.
\<close>

theorem edge_predicates_mutually_exclusive:
  assumes "1 \<le> xd" and "1 \<le> yd" and "p \<noteq> q"
    and "0 \<le> p" and "p < 2 * xd * yd" and "0 \<le> q" and "q < 2 * xd * yd"
  shows "\<exists>h. is_horizontal_edge p q xd yd per = Inr h
           \<and> \<not> (h \<and> is_vertical_edge p q xd yd per)
           \<and> \<not> (h \<and> are_same_site_opposite_spin p q (xd * yd))
           \<and> \<not> (is_vertical_edge p q xd yd per \<and> are_same_site_opposite_spin p q (xd * yd))"
proof (cases "different_sector p q (xd * yd)")
  case True
  then show ?thesis
    by (intro exI[of _ False]) (simp add: is_horizontal_edge_char is_vertical_edge_char)
next
  case False
  have ns: "\<not> are_same_site_opposite_spin p q (xd * yd)"
    using False same_site_different_sector[of p "xd * yd" q] assms by (auto simp: mult.assoc)
  have xnz: "xd \<noteq> 0" using assms by simp
  let ?a = "fst (fold_sector p q (xd * yd))" and ?b = "snd (fold_sector p q (xd * yd))"
  let ?h = "Inr (Some ?b) = right_neighbor ?a xd yd per \<or> Inr (Some ?a) = right_neighbor ?b xd yd per"
  have hv: "\<not> (?h \<and> is_vertical_edge p q xd yd per)"
  proof
    assume hv: "?h \<and> is_vertical_edge p q xd yd per"
    then have v: "Some ?b = bottom_neighbor ?a xd yd per \<or> Some ?a = bottom_neighbor ?b xd yd per"
      by (simp add: is_vertical_edge_char)
    have x2: "2 \<le> xd" using hv assms(1) by (cases "xd = 1") (auto simp: right_neighbor_def)
    have y2: "2 \<le> yd" using v assms(2) by (cases "yd = 1") (auto simp: bottom_neighbor_def)
    have "xd * 2 \<le> xd * yd" using x2 y2 by (intro mult_left_mono) auto
    then have "2 * xd \<le> xd * yd" by simp
    from right_bottom_disjoint[OF x2 this _ v] hv show False by blast
  qed
  show ?thesis
    using False xnz ns hv by (intro exI[of _ ?h]) (simp add: is_horizontal_edge_char)
qed

theorem edge_predicates_mutually_exclusive_witness:
  "is_horizontal_edge 0 1 2 2 True = Inr True \<and> \<not> is_vertical_edge 0 1 2 2 True
     \<and> \<not> are_same_site_opposite_spin 0 1 (2 * 2)"
  using edge_predicates_mutually_exclusive[of 2 2 0 1 True]
  by (auto simp: is_horizontal_edge_def different_sector_def fold_sector_def right_neighbor_def)

text \<open>
  Claim C10. Each of the three edge predicates is symmetric in its first two arguments,
  for all integers \<open>p\<close>, \<open>q\<close> and all lattice parameters; for the horizontal predicate
  this includes the case where it raises (\<open>x_dim = 0\<close>), which it then does for both
  orders.
\<close>

theorem edge_predicates_symmetric:
  "is_horizontal_edge p q xd yd per = is_horizontal_edge q p xd yd per
   \<and> is_vertical_edge p q xd yd per = is_vertical_edge q p xd yd per
   \<and> are_same_site_opposite_spin p q n = are_same_site_opposite_spin q p n"
proof (intro conjI)
  show "is_horizontal_edge p q xd yd per = is_horizontal_edge q p xd yd per"
    unfolding is_horizontal_edge_char different_sector_sym[of q p] fold_sector_sym[of q p]
    by (cases "fold_sector p q (xd * yd)") auto
  show "is_vertical_edge p q xd yd per = is_vertical_edge q p xd yd per"
    unfolding is_vertical_edge_char different_sector_sym[of q p] fold_sector_sym[of q p]
    by (cases "fold_sector p q (xd * yd)") auto
  show "are_same_site_opposite_spin p q n = are_same_site_opposite_spin q p n"
    by (auto simp: are_same_site_opposite_spin_def)
qed

lemma succ_mod_zero_iff:
  fixes s x :: int assumes "1 \<le> x"
  shows "(s + 1) mod x = 0 \<longleftrightarrow> s mod x = x - 1"
proof -
  have r: "0 \<le> s mod x" "s mod x < x" using assms by simp_all
  have e: "(s + 1) mod x = (s mod x + 1) mod x" by (simp add: mod_add_left_eq)
  show ?thesis
  proof (cases "s mod x + 1 < x")
    case True
    then have "(s mod x + 1) mod x = s mod x + 1" using r by simp
    then show ?thesis using e r True by simp
  next
    case False
    then have "s mod x + 1 = x" using r by simp
    then show ?thesis using e by (metis add_diff_cancel_right' mod_self)
  qed
qed

lemma bottom_row_iff:
  fixes s x y :: int assumes "1 \<le> x" "0 \<le> s" "s < x * y"
  shows "s + x + 1 > x * y \<longleftrightarrow> s div x = y - 1"
proof -
  have r: "0 \<le> s mod x" "s mod x < x" using assms by simp_all
  have s: "s = x * (s div x) + s mod x" by simp
  have "x * (s div x) < x * y" using s r assms(3) by linarith
  then have dy: "s div x < y" using assms(1) by (simp add: mult_less_cancel_left_pos)
  show ?thesis
  proof (cases "s div x = y - 1")
    case True
    have "x * (s div x) = x * y - x" unfolding True by (simp add: right_diff_distrib)
    then show ?thesis using s r True by linarith
  next
    case False
    then have "s div x \<le> y - 2" using dy by simp
    then have "x * (s div x) \<le> x * (y - 2)" using assms(1) by (intro mult_left_mono) simp_all
    then have "x * (s div x) \<le> x * y - 2 * x" by (simp add: algebra_simps)
    then show ?thesis using s r False by linarith
  qed
qed

lemma wrap_nonneg:
  fixes s x :: int assumes "1 \<le> x" "0 \<le> s" "(s + 1) mod x = 0"
  shows "x \<le> s + 1"
proof -
  have "x dvd s + 1" using assms(3) by (simp add: dvd_eq_mod_eq_0)
  then show ?thesis using assms(2) by (intro zdvd_imp_le) simp_all
qed

lemma succ_in_range:
  fixes s x y :: int assumes "s < x * y" "(s + 1) mod x \<noteq> 0"
  shows "s + 1 < x * y"
proof -
  have "s + 1 \<noteq> x * y" using assms(2) by auto
  then show ?thesis using assms(1) by simp
qed

text \<open>
  Claim C2 as stated fails on a lattice that is one site wide (or one site high): there
  the periodic right (bottom) neighbour is "no neighbour", by the guard that opens each
  function.
\<close>

theorem neighbor_no_wrap_counterexample:
  "(1::int) \<le> 1 \<and> (0::int) \<le> 0 \<and> (0::int) < 1 * 1
   \<and> right_neighbor 0 1 1 True = Inr None \<and> bottom_neighbor 0 1 1 True = None"
  by (simp add: right_neighbor_def bottom_neighbor_def)

text \<open>
  Claim C2, amended. For \<open>x_dim \<ge> 1\<close>, \<open>y_dim \<ge> 1\<close> and a site in \<open>[0, x_dim * y_dim)\<close>:
  with \<open>periodic\<close> true, the right neighbour is a site in \<open>[0, x_dim * y_dim)\<close> when
  \<open>x_dim \<noteq> 1\<close> and "no neighbour" when \<open>x_dim = 1\<close>, and the bottom neighbour is a site in
  range when \<open>y_dim \<noteq> 1\<close> and "no neighbour" when \<open>y_dim = 1\<close>; with \<open>periodic\<close> false,
  the right neighbour is "no neighbour" exactly for the sites at the right end of a row
  (\<open>site mod x_dim = x_dim - 1\<close>) and the bottom neighbour is "no neighbour" exactly for
  the sites of the bottom row (\<open>site div x_dim = y_dim - 1\<close>).
\<close>

theorem neighbors_periodic_and_open:
  assumes "1 \<le> xd" and "1 \<le> yd" and "0 \<le> site" and "site < xd * yd"
  shows "(if xd = 1 then right_neighbor site xd yd True = Inr None
          else \<exists>r. right_neighbor site xd yd True = Inr (Some r) \<and> 0 \<le> r \<and> r < xd * yd)
       \<and> (if yd = 1 then bottom_neighbor site xd yd True = None
          else \<exists>r. bottom_neighbor site xd yd True = Some r \<and> 0 \<le> r \<and> r < xd * yd)
       \<and> (\<exists>r. right_neighbor site xd yd False = Inr r \<and> (r = None \<longleftrightarrow> site mod xd = xd - 1))
       \<and> (bottom_neighbor site xd yd False = None \<longleftrightarrow> site div xd = yd - 1)"
proof (intro conjI)
  have "xd * 1 \<le> xd * yd" using assms(1,2) by (intro mult_left_mono) simp_all
  then have xn: "xd \<le> xd * yd" by simp
  show "if xd = 1 then right_neighbor site xd yd True = Inr None
        else \<exists>r. right_neighbor site xd yd True = Inr (Some r) \<and> 0 \<le> r \<and> r < xd * yd"
    using assms wrap_nonneg[of xd site] succ_in_range[of site xd yd]
    by (auto simp: right_neighbor_def)
  show "if yd = 1 then bottom_neighbor site xd yd True = None
        else \<exists>r. bottom_neighbor site xd yd True = Some r \<and> 0 \<le> r \<and> r < xd * yd"
  proof (cases "yd = 1")
    case True
    then show ?thesis by (simp add: bottom_neighbor_def)
  next
    case False
    have "0 \<le> site + xd - xd * yd \<and> site + xd - xd * yd < xd * yd"
      if "xd * yd < site + xd + 1"
      using that xn assms(3,4) by linarith
    moreover have "0 \<le> site + xd \<and> site + xd < xd * yd" if "\<not> xd * yd < site + xd + 1"
      using that assms(1,3) by linarith
    ultimately show ?thesis using False by (simp add: bottom_neighbor_def)
  qed
  show "\<exists>r. right_neighbor site xd yd False = Inr r \<and> (r = None \<longleftrightarrow> site mod xd = xd - 1)"
    using assms(1) succ_mod_zero_iff[of xd site] by (auto simp: right_neighbor_def)
  show "bottom_neighbor site xd yd False = None \<longleftrightarrow> site div xd = yd - 1"
    using assms bottom_row_iff[of xd site yd] by (auto simp: bottom_neighbor_def)
qed

theorem neighbors_periodic_and_open_witness:
  "right_neighbor 3 2 3 True = Inr (Some 2) \<and> bottom_neighbor 5 2 3 True = Some 1
   \<and> right_neighbor 3 2 3 False = Inr None \<and> bottom_neighbor 5 2 3 False = None"
  using neighbors_periodic_and_open[of 2 3 3] neighbors_periodic_and_open[of 2 3 5]
  by (simp add: right_neighbor_def bottom_neighbor_def)

section \<open>Properties of the exponent canonicalisation\<close>

lemma float_mod_range:
  assumes "0 < m"
  shows "\<exists>r. float_mod x m = Inr r \<and> 0 \<le> r \<and> r < m"
proof -
  have "of_int \<lfloor>x / m\<rfloor> * m \<le> x"
    using of_int_floor_le[of "x / m"] by (simp only: pos_le_divide_eq[OF assms])
  then have lo: "m * of_int \<lfloor>x / m\<rfloor> \<le> x" by (simp only: mult.commute)
  have "x / m < of_int \<lfloor>x / m\<rfloor> + 1" by linarith
  then have "x < (of_int \<lfloor>x / m\<rfloor> + 1) * m"
    by (simp only: pos_divide_less_eq[OF assms])
  then have hi: "x < m * of_int \<lfloor>x / m\<rfloor> + m" by (simp only: algebra_simps)
  from lo hi show ?thesis using assms by (simp add: float_mod_def)
qed


text \<open>
  Claim C3. For every real exponent \<open>e\<close> and every positive period \<open>p\<close>, the
  canonicalised exponent is a value in the interval \<open>(-p/2, +p/2]\<close>; the boundary
  \<open>-p/2\<close> is sent to \<open>+p/2\<close>; and the canonical forms of \<open>5\<close> and \<open>-2\<close> for the period
  \<open>4\<close> are \<open>1\<close> and \<open>2\<close>.
\<close>

theorem canonicalize_exponent_range:
  assumes "0 < p"
  shows "(\<exists>r. canonicalize_exponent e p = Inr r \<and> - (of_int p / 2) < r \<and> r \<le> of_int p / 2)
       \<and> canonicalize_exponent (- (of_int p / 2)) p = Inr (of_int p / 2)
       \<and> canonicalize_exponent 5 4 = Inr 1
       \<and> canonicalize_exponent (- 2) 4 = Inr 2"
proof (intro conjI)
  have p: "0 < (of_int p :: real)" using assms by simp
  obtain r where r: "float_mod (e + of_int p / 2) (of_int p) = Inr r" "0 \<le> r" "r < of_int p"
    using float_mod_range[OF p] by blast
  have c: "canonicalize_exponent e p =
      Inr (if r - of_int p / 2 \<le> of_int (- p) / 2 then r - of_int p / 2 + of_int p
           else r - of_int p / 2)"
    using r(1) by (simp add: canonicalize_exponent_def Let_def)
  show "\<exists>r. canonicalize_exponent e p = Inr r \<and> - (of_int p / 2) < r \<and> r \<le> of_int p / 2"
  proof (cases "r - of_int p / 2 \<le> of_int (- p) / 2")
    case True
    then have "r = 0" using r(2) by simp
    then have "canonicalize_exponent e p = Inr (of_int p / 2)" using c by simp
    moreover have "- (of_int p / 2) < (of_int p / 2 :: real)" using p by simp
    ultimately show ?thesis by (intro exI[of _ "of_int p / 2"]) simp
  next
    case False
    then have "canonicalize_exponent e p = Inr (r - of_int p / 2)" using c by simp
    moreover have "- (of_int p / 2) < r - of_int p / 2" using False by simp
    moreover have "r - of_int p / 2 \<le> of_int p / 2" using r(3) by simp
    ultimately show ?thesis by blast
  qed
  show "canonicalize_exponent (- (of_int p / 2)) p = Inr (of_int p / 2)"
    using p by (simp add: canonicalize_exponent_def float_mod_def)
  show "canonicalize_exponent 5 4 = Inr 1"
    by (simp add: canonicalize_exponent_def float_mod_def)
  show "canonicalize_exponent (- 2) 4 = Inr 2"
    by (simp add: canonicalize_exponent_def float_mod_def)
qed

theorem canonicalize_exponent_range_witness:
  "(0::int) < 4 \<and> canonicalize_exponent 7 4 = Inr (- 1) \<and> canonicalize_exponent (- (of_int 4 / 2)) 4 = Inr 2"
  using canonicalize_exponent_range[of 4 7]
  by (simp add: canonicalize_exponent_def float_mod_def)


section \<open>Properties of the parameters\<close>

lemma params_loop_unfold:
  "params_loop self i =
     (if i < iterations self then params_block self i @ params_loop self (i + 1) else [])"
  by (subst params_loop.simps) (simp add: params_block_def)

lemma params_loop_step:
  "i < iterations self \<Longrightarrow> params_loop self i = params_block self i @ params_loop self (i + 1)"
  by (subst params_loop_unfold) simp

lemma params_loop_stop: "\<not> i < iterations self \<Longrightarrow> params_loop self i = []"
  by (subst params_loop_unfold) simp

lemma params_loop_concat:
  "params_loop self i = concat (map (params_block self) [i..iterations self - 1])"
proof (induction self i rule: params_loop.induct)
  case (1 self i)
  show ?case
  proof (cases "i < iterations self")
    case True
    then have "[i..iterations self - 1] = i # [i + 1..iterations self - 1]"
      by (simp add: upto_rec1)
    then show ?thesis using True 1 by (subst params_loop_unfold) simp
  next
    case False
    then show ?thesis by (subst params_loop_unfold) simp
  qed
qed

lemma params_loop_subscripts:
  "x \<in> set (params_loop self i) \<Longrightarrow> \<exists>j\<ge>i. subscripts x = [j]"
proof (induction self i rule: params_loop.induct)
  case (1 self i)
  show ?case
  proof (cases "i < iterations self")
    case True
    from "1.prems" have "x \<in> set (params_block self i) \<or> x \<in> set (params_loop self (i + 1))"
      using True by (subst (asm) params_loop_unfold) simp
    then show ?thesis
    proof
      assume "x \<in> set (params_block self i)"
      then have "subscripts x = [i]" by (auto simp: params_block_def split: if_splits)
      then show ?thesis by auto
    next
      assume "x \<in> set (params_loop self (i + 1))"
      then obtain j where "j \<ge> i + 1" "subscripts x = [j]" using 1 True by blast
      then show ?thesis by (intro exI[of _ j]) simp
    qed
  next
    case False
    then show ?thesis using "1.prems" by (subst (asm) params_loop_unfold) simp
  qed
qed

lemma params_block_distinct: "distinct (params_block self i)"
  by (simp add: params_block_def)

lemma params_loop_distinct: "distinct (params_loop self i)"
proof (induction self i rule: params_loop.induct)
  case (1 self i)
  show ?case
  proof (cases "i < iterations self")
    case True
    have "set (params_block self i) \<inter> set (params_loop self (i + 1)) = {}"
    proof (rule ccontr)
      assume "\<not> ?thesis"
      then obtain x where x: "x \<in> set (params_block self i)" "x \<in> set (params_loop self (i + 1))"
        by blast
      from x(1) have "subscripts x = [i]" by (auto simp: params_block_def split: if_splits)
      moreover from x(2) obtain j where "j \<ge> i + 1" "subscripts x = [j]"
        using params_loop_subscripts by blast
      ultimately show False by simp
    qed
    then show ?thesis using True 1 params_block_distinct
      by (subst params_loop_unfold) simp
  next
    case False
    then show ?thesis by (subst params_loop_unfold) simp
  qed
qed

text \<open>
  Claim C5. \<open>params\<close> yields, for each \<open>i\<close> from \<open>0\<close> to \<open>iterations - 1\<close> in order,
  \<open>Th(i)\<close> if and only if \<open>x_dim > 1\<close>, then \<open>Tv(i)\<close> if and only if \<open>y_dim > 1\<close>, then
  \<open>V(i)\<close>; no parameter is yielded twice; and for \<open>x_dim = 2\<close>, \<open>y_dim = 1\<close> and one
  iteration the sequence is \<open>Th(0), V(0)\<close>. (For a negative number of iterations the
  sequence is empty, as the range is.)
\<close>

theorem params_sequence:
  "params self =
     concat (map (\<lambda>i. (if x_dim self > 1 then [LetterWithSubscripts ''Th'' [i]] else [])
                      @ (if y_dim self > 1 then [LetterWithSubscripts ''Tv'' [i]] else [])
                      @ [LetterWithSubscripts ''V'' [i]])
                 [0..iterations self - 1])
   \<and> distinct (params self)
   \<and> params \<lparr>x_dim = 2, y_dim = 1, tunneling = t, coulomb = c, periodic = per,
              iterations = 1, adiabatic_evolution_time = aet, qubits = qs\<rparr>
       = [LetterWithSubscripts ''Th'' [0], LetterWithSubscripts ''V'' [0]]"
proof (intro conjI)
  show "params self =
     concat (map (\<lambda>i. (if x_dim self > 1 then [LetterWithSubscripts ''Th'' [i]] else [])
                      @ (if y_dim self > 1 then [LetterWithSubscripts ''Tv'' [i]] else [])
                      @ [LetterWithSubscripts ''V'' [i]])
                 [0..iterations self - 1])"
    unfolding params_def params_loop_concat params_block_def ..
  show "distinct (params self)"
    by (simp add: params_def params_loop_distinct)
  show "params \<lparr>x_dim = 2, y_dim = 1, tunneling = t, coulomb = c, periodic = per,
              iterations = 1, adiabatic_evolution_time = aet, qubits = qs\<rparr>
       = [LetterWithSubscripts ''Th'' [0], LetterWithSubscripts ''V'' [0]]"
    by (simp add: params_def params_loop_step params_loop_stop params_block_def)
qed

lemma length_params_block:
  "int (length (params_block self i)) =
     (if x_dim self > 1 then 1 else 0) + (if y_dim self > 1 then 1 else 0) + 1"
  by (simp add: params_block_def)

lemma length_params_loop:
  "i \<le> iterations self \<Longrightarrow>
   int (length (params_loop self i)) =
     (iterations self - i) * ((if x_dim self > 1 then 1 else 0) + (if y_dim self > 1 then 1 else 0) + 1)"
proof (induction self i rule: params_loop.induct)
  case (1 self i)
  show ?case
  proof (cases "i < iterations self")
    case True
    then have "int (length (params_loop self (i + 1))) =
      (iterations self - (i + 1)) * ((if x_dim self > 1 then 1 else 0) + (if y_dim self > 1 then 1 else 0) + 1)"
      using 1 by simp
    then show ?thesis using True
      by (subst params_loop_unfold) (simp add: length_params_block algebra_simps)
  next
    case False
    then have "i = iterations self" using "1.prems" by simp
    then show ?thesis by (subst params_loop_unfold) simp
  qed
qed

lemma params_loop_letter:
  "x \<in> set (params_loop self i) \<Longrightarrow> letter x = ''V'' \<or> letter x = ''Th'' \<or> letter x = ''Tv''"
proof (induction self i rule: params_loop.induct)
  case (1 self i)
  show ?case
  proof (cases "i < iterations self")
    case True
    from "1.prems" have "x \<in> set (params_block self i) \<or> x \<in> set (params_loop self (i + 1))"
      using True by (subst (asm) params_loop_unfold) simp
    then show ?thesis
    proof
      assume "x \<in> set (params_block self i)"
      then show ?thesis by (auto simp: params_block_def split: if_splits)
    next
      assume "x \<in> set (params_loop self (i + 1))"
      then show ?thesis using 1 True by blast
    qed
  next
    case False
    then show ?thesis using "1.prems" by (subst (asm) params_loop_unfold) simp
  qed
qed

lemma param_bounds_loop_map:
  "param_bounds_loop ps bounds =
     bounds @ map (\<lambda>param. if letter param = ''V'' then (- 1, 1) else (- 2, 2)) ps"
  by (induction ps arbitrary: bounds) (simp_all add: Let_def)

text \<open>
  Claim C6. \<open>param_bounds\<close> has the length of \<open>params\<close> and is aligned with it: the entry
  of a parameter with letter \<open>V\<close> is \<open>(-1, 1)\<close>, the entry of a parameter with letter
  \<open>Th\<close> or \<open>Tv\<close> is \<open>(-2, 2)\<close>, and there is no other letter. For a number of
  iterations that is not negative the common length is
  \<open>iterations * ((1 if x_dim > 1 else 0) + (1 if y_dim > 1 else 0) + 1)\<close>.
\<close>

theorem param_bounds_aligned:
  "length (param_bounds self) = length (params self)
   \<and> (\<forall>k < length (params self).
        (letter (params self ! k) = ''V'' \<and> param_bounds self ! k = (- 1, 1))
        \<or> ((letter (params self ! k) = ''Th'' \<or> letter (params self ! k) = ''Tv'')
           \<and> param_bounds self ! k = (- 2, 2)))
   \<and> (0 \<le> iterations self \<longrightarrow>
        int (length (params self)) =
          iterations self
          * ((if x_dim self > 1 then 1 else 0) + (if y_dim self > 1 then 1 else 0) + 1))"
proof (intro conjI allI impI)
  show "length (param_bounds self) = length (params self)"
    by (simp add: param_bounds_def param_bounds_loop_map)
next
  fix k assume k: "k < length (params self)"
  then have "params self ! k \<in> set (params_loop self 0)" by (simp add: params_def)
  then have l: "letter (params self ! k) = ''V'' \<or> letter (params self ! k) = ''Th''
      \<or> letter (params self ! k) = ''Tv''"
    by (rule params_loop_letter)
  have "param_bounds self ! k =
      (if letter (params self ! k) = ''V'' then (- 1, 1) else (- 2, 2))"
    using k by (simp add: param_bounds_def param_bounds_loop_map)
  with l show "(letter (params self ! k) = ''V'' \<and> param_bounds self ! k = (- 1, 1))
        \<or> ((letter (params self ! k) = ''Th'' \<or> letter (params self ! k) = ''Tv'')
           \<and> param_bounds self ! k = (- 2, 2))"
    by auto
next
  assume "0 \<le> iterations self"
  then show "int (length (params self)) =
          iterations self
          * ((if x_dim self > 1 then 1 else 0) + (if y_dim self > 1 then 1 else 0) + 1)"
    using length_params_loop[of 0 self] by (simp add: params_def)
qed

theorem param_bounds_aligned_witness:
  "(0::int) \<le> iterations example_ansatz
   \<and> params example_ansatz ! 2 = LetterWithSubscripts ''V'' [0]
   \<and> param_bounds example_ansatz ! 2 = (- 1, 1)
   \<and> params example_ansatz ! 3 = LetterWithSubscripts ''Th'' [1]
   \<and> param_bounds example_ansatz ! 3 = (- 2, 2)
   \<and> length (param_bounds example_ansatz) = 6"
proof -
  have p: "params example_ansatz =
      [LetterWithSubscripts ''Th'' [0], LetterWithSubscripts ''Tv'' [0],
       LetterWithSubscripts ''V'' [0], LetterWithSubscripts ''Th'' [1],
       LetterWithSubscripts ''Tv'' [1], LetterWithSubscripts ''V'' [1]]"
    by (simp add: example_ansatz_def params_def params_loop_step params_loop_stop
        params_block_def)
  note t = param_bounds_aligned[of example_ansatz]
  from t have len: "length (param_bounds example_ansatz) = length (params example_ansatz)"
    by (rule conjunct1)
  from t have al: "\<forall>k < length (params example_ansatz).
        (letter (params example_ansatz ! k) = ''V'' \<and> param_bounds example_ansatz ! k = (- 1, 1))
        \<or> ((letter (params example_ansatz ! k) = ''Th'' \<or> letter (params example_ansatz ! k) = ''Tv'')
           \<and> param_bounds example_ansatz ! k = (- 2, 2))"
    by (rule conjunct1[OF conjunct2])
  have b2: "param_bounds example_ansatz ! 2 = (- 1, 1)"
    using al[rule_format, of 2] by (simp add: p)
  have b3: "param_bounds example_ansatz ! 3 = (- 2, 2)"
    using al[rule_format, of 3] by (simp add: p)
  show ?thesis using len b2 b3 by (simp add: p) (simp add: example_ansatz_def)
qed

section \<open>Properties of the default initial parameters\<close>

lemma canonicalize_exponent_total:
  "p \<noteq> 0 \<Longrightarrow> \<exists>c. canonicalize_exponent e p = Inr c"
  by (simp add: canonicalize_exponent_def float_mod_def Let_def)

lemma default_initial_params_loop_values:
  assumes "\<forall>z \<in> set zs. snd z \<noteq> 0
             \<and> (letter (fst z) = ''Th'' \<or> letter (fst z) = ''Tv''
                \<or> (\<exists>i. fst z = LetterWithSubscripts ''V'' [i]))"
  shows "\<exists>vs. default_initial_params_loop self st zs acc = Inr (acc @ vs)
            \<and> list_all2 (\<lambda>z v. initial_value_ok self st (fst z) (snd z) v) zs vs"
  using assms
proof (induction zs arbitrary: acc)
  case Nil
  then show ?case by simp
next
  case (Cons z zs)
  obtain param sf where z: "z = (param, sf)" by (cases z)
  have sf: "sf \<noteq> 0" using Cons.prems z by simp
  have l: "letter param = ''Th'' \<or> letter param = ''Tv''
      \<or> (\<exists>i. param = LetterWithSubscripts ''V'' [i])"
    using Cons.prems z by simp
  have rest: "\<forall>z \<in> set zs. snd z \<noteq> 0
             \<and> (letter (fst z) = ''Th'' \<or> letter (fst z) = ''Tv''
                \<or> (\<exists>i. fst z = LetterWithSubscripts ''V'' [i]))"
    using Cons.prems by simp
  show ?case
  proof (cases "letter param = ''Th'' \<or> letter param = ''Tv''")
    case True
    obtain c where c: "canonicalize_exponent (- tunneling self * st / pi) 4 = Inr c"
      using canonicalize_exponent_total[of 4] by fastforce
    have ok: "initial_value_ok self st param sf (c / sf)"
      unfolding initial_value_ok_def using True c by blast
    obtain vs where vs: "default_initial_params_loop self st zs (acc @ [c / sf]) = Inr ((acc @ [c / sf]) @ vs)"
      "list_all2 (\<lambda>z v. initial_value_ok self st (fst z) (snd z) v) zs vs"
      using Cons.IH[OF rest, of "acc @ [c / sf]"] by blast
    have step: "default_initial_params_loop self st (z # zs) acc =
        (case divide_by (canonicalize_exponent (- tunneling self * st / pi) 4) sf of
           Inl e \<Rightarrow> Inl e
         | Inr v \<Rightarrow> default_initial_params_loop self st zs (acc @ [v]))"
      unfolding z default_initial_params_loop.simps using True by (simp only: if_True)
    have "default_initial_params_loop self st (z # zs) acc = Inr (acc @ (c / sf) # vs)"
      unfolding step c divide_by_def using sf vs(1) by simp
    then show ?thesis using vs(2) ok z by (intro exI[of _ "(c / sf) # vs"]) simp
  next
    case False
    then obtain i where i: "param = LetterWithSubscripts ''V'' [i]" using l by blast
    let ?e = "- 0.5 * coulomb self * (0.5 * (2 * of_int i + 1) / of_int (iterations self)) * st / pi"
    obtain c where c: "canonicalize_exponent ?e 2 = Inr c"
      using canonicalize_exponent_total[of 2] by fastforce
    have ok: "initial_value_ok self st param sf (c / sf)"
      unfolding initial_value_ok_def using i c by blast
    obtain vs where vs: "default_initial_params_loop self st zs (acc @ [c / sf]) = Inr ((acc @ [c / sf]) @ vs)"
      "list_all2 (\<lambda>z v. initial_value_ok self st (fst z) (snd z) v) zs vs"
      using Cons.IH[OF rest, of "acc @ [c / sf]"] by blast
    have step: "default_initial_params_loop self st (z # zs) acc =
        (case divide_by (canonicalize_exponent ?e 2) sf of
           Inl e \<Rightarrow> Inl e
         | Inr v \<Rightarrow> default_initial_params_loop self st zs (acc @ [v]))"
      unfolding z default_initial_params_loop.simps Let_def using False
      by (simp only: if_False) (simp only: i LetterWithSubscripts.sel list.case if_True simp_thms)
    have "default_initial_params_loop self st (z # zs) acc = Inr (acc @ (c / sf) # vs)"
      unfolding step c divide_by_def using sf vs(1) by simp
    then show ?thesis using vs(2) ok z by (intro exI[of _ "(c / sf) # vs"]) simp
  qed
qed


lemma params_shape:
  assumes "x \<in> set (params self)"
  shows "letter x = ''Th'' \<or> letter x = ''Tv'' \<or> (\<exists>i. x = LetterWithSubscripts ''V'' [i])"
proof -
  from assms obtain i where "x \<in> set (params_block self i)"
    unfolding params_def params_loop_concat by auto
  then show ?thesis by (auto simp: params_block_def split: if_splits)
qed

text \<open>
  Claim C7. For an ansatz with at least one iteration, and scale factors of the base
  class that are one per parameter and not zero, \<open>default_initial_params\<close> returns an
  array aligned with \<open>params\<close>: with \<open>step_time = adiabatic_evolution_time / iterations\<close>,
  the entry of a \<open>Th\<close> or \<open>Tv\<close> parameter is the canonical form, for the period 4, of
  \<open>-tunneling * step_time / pi\<close> divided by the scale factor of the parameter, and the
  entry of \<open>V(i)\<close> is the canonical form, for the period 2, of
  \<open>-0.5 * coulomb * (0.5 * (2 * i + 1) / iterations) * step_time / pi\<close> divided by its scale
  factor. When no evolution time is given to the constructor, the evolution time of the
  ansatz is \<open>0.1 * |coulomb| * iterations\<close>.
\<close>

theorem default_initial_params_values:
  assumes "1 \<le> iterations self"
    and "length scale_factors = length (params self)"
    and "\<forall>s \<in> set scale_factors. s \<noteq> 0"
  shows "(\<exists>vs. default_initial_params self scale_factors = Inr vs
            \<and> length vs = length (params self)
            \<and> (\<forall>k < length (params self).
                 ((letter (params self ! k) = ''Th'' \<or> letter (params self ! k) = ''Tv'')
                  \<and> (\<exists>c. canonicalize_exponent
                             (- tunneling self
                                * (adiabatic_evolution_time self / of_int (iterations self))
                                / pi) 4 = Inr c
                          \<and> vs ! k = c / scale_factors ! k))
                 \<or> (\<exists>i. params self ! k = LetterWithSubscripts ''V'' [i]
                        \<and> (\<exists>c. canonicalize_exponent
                                   (- 0.5 * coulomb self
                                      * (0.5 * (2 * of_int i + 1) / of_int (iterations self))
                                      * (adiabatic_evolution_time self / of_int (iterations self))
                                      / pi) 2 = Inr c
                                \<and> vs ! k = c / scale_factors ! k))))
       \<and> (\<exists>a. init xd yd t c per its None qs = Inr a
              \<and> adiabatic_evolution_time a = 0.1 * \<bar>c\<bar> * of_int its)"
proof (intro conjI)
  let ?st = "adiabatic_evolution_time self / of_int (iterations self)"
  let ?zs = "zip (params self) scale_factors"
  have pre: "\<forall>z \<in> set ?zs. snd z \<noteq> 0
             \<and> (letter (fst z) = ''Th'' \<or> letter (fst z) = ''Tv''
                \<or> (\<exists>i. fst z = LetterWithSubscripts ''V'' [i]))"
  proof
    fix z assume "z \<in> set ?zs"
    then have "(fst z, snd z) \<in> set ?zs" by simp
    then have "fst z \<in> set (params self)" "snd z \<in> set scale_factors"
      by (rule set_zip_leftD, rule set_zip_rightD)
    then show "snd z \<noteq> 0
             \<and> (letter (fst z) = ''Th'' \<or> letter (fst z) = ''Tv''
                \<or> (\<exists>i. fst z = LetterWithSubscripts ''V'' [i]))"
      using assms(3) params_shape by blast
  qed
  obtain vs where vs: "default_initial_params_loop self ?st ?zs [] = Inr ([] @ vs)"
    "list_all2 (\<lambda>z v. initial_value_ok self ?st (fst z) (snd z) v) ?zs vs"
    using default_initial_params_loop_values[OF pre, of self ?st "[]"] by blast
  have run: "default_initial_params self scale_factors = Inr vs"
    using assms(1) vs(1) by (simp add: default_initial_params_def Let_def)
  have len: "length vs = length (params self)"
    using list_all2_lengthD[OF vs(2)] assms(2) by simp
  have ent: "initial_value_ok self ?st (params self ! k) (scale_factors ! k) (vs ! k)"
    if "k < length (params self)" for k
    using list_all2_nthD[OF vs(2), of k] that assms(2) by simp
  show "\<exists>vs. default_initial_params self scale_factors = Inr vs
            \<and> length vs = length (params self)
            \<and> (\<forall>k < length (params self).
                 ((letter (params self ! k) = ''Th'' \<or> letter (params self ! k) = ''Tv'')
                  \<and> (\<exists>c. canonicalize_exponent
                             (- tunneling self
                                * (adiabatic_evolution_time self / of_int (iterations self))
                                / pi) 4 = Inr c
                          \<and> vs ! k = c / scale_factors ! k))
                 \<or> (\<exists>i. params self ! k = LetterWithSubscripts ''V'' [i]
                        \<and> (\<exists>c. canonicalize_exponent
                                   (- 0.5 * coulomb self
                                      * (0.5 * (2 * of_int i + 1) / of_int (iterations self))
                                      * (adiabatic_evolution_time self / of_int (iterations self))
                                      / pi) 2 = Inr c
                                \<and> vs ! k = c / scale_factors ! k)))"
    using run len ent unfolding initial_value_ok_def by (intro exI[of _ vs]) blast
  show "\<exists>a. init xd yd t c per its None qs = Inr a
              \<and> adiabatic_evolution_time a = 0.1 * \<bar>c\<bar> * of_int its"
    by (simp add: init_def VariationalAnsatz_init_def Let_def)
qed

theorem default_initial_params_values_witness:
  "1 \<le> iterations example_ansatz
   \<and> length [1, 1, 1, 1, 1, 1 :: real] = length (params example_ansatz)
   \<and> (0 :: real) \<notin> set [1, 1, 1, 1, 1, 1]
   \<and> (\<exists>vs. default_initial_params example_ansatz [1, 1, 1, 1, 1, 1] = Inr vs \<and> length vs = 6)
   \<and> init 2 2 1 2 True 2 None None = Inr example_ansatz"
proof -
  have p: "params example_ansatz =
      [LetterWithSubscripts ''Th'' [0], LetterWithSubscripts ''Tv'' [0],
       LetterWithSubscripts ''V'' [0], LetterWithSubscripts ''Th'' [1],
       LetterWithSubscripts ''Tv'' [1], LetterWithSubscripts ''V'' [1]]"
    by (simp add: example_ansatz_def params_def params_loop_step params_loop_stop
        params_block_def)
  have lp: "length (params example_ansatz) = 6" by (simp add: p)
  have h1: "1 \<le> iterations example_ansatz" by (simp add: example_ansatz_def)
  have h2: "length [1, 1, 1, 1, 1, 1 :: real] = length (params example_ansatz)"
    by (simp add: p)
  have h3: "\<forall>s \<in> set [1, 1, 1, 1, 1, 1 :: real]. s \<noteq> 0" by simp
  have i: "init 2 2 1 2 True 2 None None = Inr example_ansatz"
    by (simp add: init_def VariationalAnsatz_init_def example_ansatz_def generate_qubits_def
        upto_rec1)
  from default_initial_params_values[OF h1 h2 h3]
  have "\<exists>vs. default_initial_params example_ansatz [1, 1, 1, 1, 1, 1] = Inr vs
          \<and> length vs = length (params example_ansatz)"
    by blast
  then have "\<exists>vs. default_initial_params example_ansatz [1, 1, 1, 1, 1, 1] = Inr vs
          \<and> length vs = 6"
    unfolding lp .
  moreover have "(0 :: real) \<notin> set [1, 1, 1, 1, 1, 1]" by simp
  ultimately show ?thesis using h1 h2 i by blast
qed

section \<open>Properties of the constructor\<close>



section \<open>Properties of the operations\<close>

lemma operations_iteration_frame:
  assumes "operations_iteration sn self i r s = (s', r', ys, err)"
  shows "next_free s \<le> next_free s'"
    and "\<forall>a < next_free s. cells s' a = cells s a"
    and "err = None \<longrightarrow> cells s' r' = cells s r"
  using assms
  by (auto simp: operations_iteration_def reversed_copy_def split: sum.splits)

lemma operations_loop_frame:
  "operations_loop sn self i r s out = (s', r', out', err) \<Longrightarrow>
     next_free s \<le> next_free s'
     \<and> (\<forall>a < next_free s. cells s' a = cells s a)
     \<and> (err = None \<longrightarrow> cells s' r' = cells s r)"
proof (induction sn self i r s out rule: operations_loop.induct)
  case (1 sn self i r s out)
  show ?case
  proof (cases "i < iterations self")
    case False
    then show ?thesis using "1.prems" by (subst (asm) operations_loop.simps) auto
  next
    case True
    obtain s1 r1 ys e1 where it: "operations_iteration sn self i r s = (s1, r1, ys, e1)"
      by (cases "operations_iteration sn self i r s") auto
    note f = operations_iteration_frame[OF it]
    show ?thesis
    proof (cases e1)
      case (Some e)
      then have "(s', r', out', err) = (s1, r1, out @ ys, Some e)"
        using "1.prems" True it by (subst (asm) operations_loop.simps) simp
      then show ?thesis using f by simp
    next
      case None
      then have rec: "operations_loop sn self (i + 1) r1 s1 (out @ ys) = (s', r', out', err)"
        using "1.prems" True it by (subst (asm) operations_loop.simps) simp
      have ih: "next_free s1 \<le> next_free s'
          \<and> (\<forall>a < next_free s1. cells s' a = cells s1 a)
          \<and> (err = None \<longrightarrow> cells s' r' = cells s1 r1)"
        using "1.IH"[OF True it[symmetric] refl refl _ rec] None by simp
      show ?thesis using ih f None by auto
    qed
  qed
qed

text \<open>
  Claim C9. When \<open>operations\<close> is called on a sequence of the caller (a reference to an
  object of the store), the content of that sequence is the same after the call, as is
  the content of every object that existed before the call, whether the call ends
  normally or with an exception: the reversals write new objects only. One pass of the
  loop body that ends normally leaves the local variable \<open>qubits\<close> on a sequence with the
  content it had when the pass began.
\<close>

theorem operations_leaves_caller_sequence:
  assumes "qubits_ref < next_free s"
  shows "(case operations sn self qubits_ref s of
            (s', qubits_ref', out, err) \<Rightarrow>
              cells s' qubits_ref = cells s qubits_ref
              \<and> (\<forall>a < next_free s. cells s' a = cells s a))
       \<and> (case operations_iteration sn self i qubits_ref s of
            (s', qubits_ref', ys, err) \<Rightarrow>
              cells s' qubits_ref = cells s qubits_ref
              \<and> (err = None \<longrightarrow> cells s' qubits_ref' = cells s qubits_ref))"
proof (intro conjI)
  obtain s' r' out err where o: "operations sn self qubits_ref s = (s', r', out, err)"
    by (cases "operations sn self qubits_ref s") auto
  from operations_loop_frame[OF o[unfolded operations_def]] assms
  show "case operations sn self qubits_ref s of
            (s', qubits_ref', out, err) \<Rightarrow>
              cells s' qubits_ref = cells s qubits_ref
              \<and> (\<forall>a < next_free s. cells s' a = cells s a)"
    by (simp add: o)
  obtain s1 r1 ys e1 where it: "operations_iteration sn self i qubits_ref s = (s1, r1, ys, e1)"
    by (cases "operations_iteration sn self i qubits_ref s") auto
  from operations_iteration_frame[OF it] assms
  show "case operations_iteration sn self i qubits_ref s of
            (s', qubits_ref', ys, err) \<Rightarrow>
              cells s' qubits_ref = cells s qubits_ref
              \<and> (err = None \<longrightarrow> cells s' qubits_ref' = cells s qubits_ref)"
    by (simp add: it)
qed


lemma operations_loop_step:
  "i < iterations self \<Longrightarrow>
   operations_loop sn self i r s out =
     (case operations_iteration sn self i r s of
        (s', r', ys, Some e) \<Rightarrow> (s', r', out @ ys, Some e)
      | (s', r', ys, None) \<Rightarrow> operations_loop sn self (i + 1) r' s' (out @ ys))"
  by (subst operations_loop.simps) simp

lemma operations_loop_stop:
  "\<not> i < iterations self \<Longrightarrow> operations_loop sn self i r s out = (s, r, out, None)"
  by (subst operations_loop.simps) simp

theorem operations_leaves_caller_sequence_witness:
  "(0::nat) < next_free example_store
   \<and> cells (fst (operations example_swap_network example_ansatz 0 example_store)) 0
       = map LineQubit [0, 1, 2, 3, 4, 5, 6, 7]
   \<and> fst (snd (operations example_swap_network example_ansatz 0 example_store)) = 4"
proof -
  have h: "(0::nat) < next_free example_store" by (simp add: example_store_def)
  have r: "fst (snd (operations example_swap_network example_ansatz 0 example_store)) = 4"
    by (simp add: operations_def operations_loop_step operations_loop_stop
        operations_iteration_def reversed_copy_def example_swap_network_def
        example_ansatz_def example_store_def one_and_two_body_interaction_def
        one_and_two_body_interaction_reversed_order_def is_horizontal_edge_def
        is_vertical_edge_def are_same_site_opposite_spin_def different_sector_def
        fold_sector_def right_neighbor_def bottom_neighbor_def Let_def)
  from operations_leaves_caller_sequence[OF h, of example_swap_network example_ansatz 0]
  have "cells (fst (operations example_swap_network example_ansatz 0 example_store)) 0
      = cells example_store 0"
    by (simp add: split_beta)
  then show ?thesis using h r by (simp add: example_store_def)
qed


end
